theory Spec2Isabelle
  imports Main
begin

section \<open>Python values of the submission feed\<close>

text \<open>
  A Python \<open>str\<close> is a sequence of Unicode code points. Literals of the source are written
  with \<open>lit\<close>. The records of the feed are JSON objects with scalar fields: a \<open>dict\<close> from
  keys to \<open>None\<close>, booleans, integers and strings.
\<close>

type_synonym pystr = "nat list"

definition lit :: "string \<Rightarrow> pystr" where
  "lit s = map of_char s"

datatype pyval = PNone | PBool bool | PInt int | PStr pystr

type_synonym raw_submission = "(pystr \<times> pyval) list"

datatype error =
    KeyError pystr
  | TypeError
  | FileNotFoundError
  | FileExistsError
  | NotADirectoryError
  | IsADirectoryError
  | PermissionError
  | UnicodeEncodeError

text \<open>Formatting inside an f-string: \<open>str(v)\<close>.\<close>

fun dec_digits :: "nat \<Rightarrow> pystr" where
  "dec_digits n = (if 10 \<le> n then dec_digits (n div 10) @ [48 + n mod 10] else [48 + n])"

declare dec_digits.simps [simp del]

definition str_int :: "int \<Rightarrow> pystr" where
  "str_int i = (if i < 0 then 45 # dec_digits (nat (- i)) else dec_digits (nat i))"

fun py_str :: "pyval \<Rightarrow> pystr" where
  "py_str PNone = lit ''None''"
| "py_str (PBool b) = (if b then lit ''True'' else lit ''False'')"
| "py_str (PInt i) = str_int i"
| "py_str (PStr s) = s"

subsection \<open>Global constants\<close>

definition BATCH_SIZE :: nat where
  "BATCH_SIZE = 20"

definition MAX_WORKERS :: nat where
  "MAX_WORKERS = 4"

definition LANG_EXTENSIONS :: "(pystr \<times> pystr) list" where
  "LANG_EXTENSIONS = map (\<lambda>(k, v). (lit k, lit v))
     [(''cpp'', ''cpp''), (''java'', ''java''), (''python'', ''py''), (''python3'', ''py''),
      (''c'', ''c''), (''csharp'', ''cs''), (''javascript'', ''js''), (''ruby'', ''rb''),
      (''swift'', ''swift''), (''golang'', ''go''), (''scala'', ''scala''), (''kotlin'', ''kt''),
      (''rust'', ''rs''), (''mysql'', ''sql''), (''bash'', ''sh'')]"

text \<open>
  \<open>LANG_EXTENSIONS.get(lang, lang)\<close>: the keys of the table are strings, so a value that is
  no string is never found and comes back itself.
\<close>

fun lang_extension :: "pyval \<Rightarrow> pyval" where
  "lang_extension (PStr l) =
     (case map_of LANG_EXTENSIONS l of Some e \<Rightarrow> PStr e | None \<Rightarrow> PStr l)"
| "lang_extension v = v"

subsection \<open>The Submission data class\<close>

record submission =
  title_slug :: pyval
  lang :: pyval
  timestamp :: pyval
  status :: pyval
  code :: pyval

definition getitem :: "raw_submission \<Rightarrow> pystr \<Rightarrow> error + pyval" where
  "getitem d k = (case map_of d k of None \<Rightarrow> Inl (KeyError k) | Some v \<Rightarrow> Inr v)"

text \<open>The five subscriptions of lines 278-284, in the order the source evaluates them.\<close>

definition make_submission :: "raw_submission \<Rightarrow> error + submission" where
  "make_submission d =
     (case getitem d (lit ''title_slug'') of Inl e \<Rightarrow> Inl e | Inr v1 \<Rightarrow>
       (case getitem d (lit ''lang'') of Inl e \<Rightarrow> Inl e | Inr v2 \<Rightarrow>
         (case getitem d (lit ''timestamp'') of Inl e \<Rightarrow> Inl e | Inr v3 \<Rightarrow>
           (case getitem d (lit ''status_display'') of Inl e \<Rightarrow> Inl e | Inr v4 \<Rightarrow>
             (case getitem d (lit ''code'') of Inl e \<Rightarrow> Inl e | Inr v5 \<Rightarrow>
                Inr \<lparr>title_slug = v1, lang = v2, timestamp = v3,
                     status = v4, code = v5\<rparr>)))))"

section \<open>UTF-8 text files\<close>

text \<open>
  Both files are opened with \<open>encoding='utf-8'\<close>. The codec is strict: a surrogate code
  point has no encoding, and writing it raises \<open>UnicodeEncodeError\<close>.
\<close>

definition utf8_char :: "nat \<Rightarrow> nat list option" where
  "utf8_char c =
     (if c < 0x80 then Some [c]
      else if c < 0x800 then Some [0xC0 + c div 64, 0x80 + c mod 64]
      else if 0xD800 \<le> c \<and> c \<le> 0xDFFF then None
      else if c < 0x10000 then
        Some [0xE0 + c div 4096, 0x80 + c div 64 mod 64, 0x80 + c mod 64]
      else if c < 0x110000 then
        Some [0xF0 + c div 262144, 0x80 + c div 4096 mod 64,
              0x80 + c div 64 mod 64, 0x80 + c mod 64]
      else None)"

fun utf8_encode :: "pystr \<Rightarrow> nat list option" where
  "utf8_encode [] = Some []"
| "utf8_encode (c # cs) =
     (case utf8_char c of
        None \<Rightarrow> None
      | Some bs \<Rightarrow> (case utf8_encode cs of None \<Rightarrow> None | Some rest \<Rightarrow> Some (bs @ rest)))"





section \<open>Paths and the file system\<close>

text \<open>
  A path is its sequence of components, relative to the working directory (the empty
  path). The operands the source joins with \<open>/\<close> are a problem slug (a URL-friendly
  identifier) and a formatted file name: one component each. Joining a value that is no
  string raises \<open>TypeError\<close>.
\<close>

type_synonym path = "pystr list"

fun truediv :: "path \<Rightarrow> pyval \<Rightarrow> error + path" where
  "truediv p (PStr s) = Inr (p @ [s])"
| "truediv p v = Inl TypeError"

text \<open>
  What a file holds: the JSON document \<open>json.dump\<close> writes for a record, a document cut
  short by a failed write, or the bytes of a text.
\<close>

datatype content = Json_document raw_submission | Truncated | Bytes "nat list"

text \<open>
  The disk: its directories, its files, and the paths the process may neither create nor
  open for writing.
\<close>

record filesystem =
  dirs :: "path set"
  files :: "path \<rightharpoonup> content"
  readonly :: "path set"

definition is_dir :: "filesystem \<Rightarrow> path \<Rightarrow> bool" where
  "is_dir fs p \<longleftrightarrow> p = [] \<or> p \<in> dirs fs"

definition is_file :: "filesystem \<Rightarrow> path \<Rightarrow> bool" where
  "is_file fs p \<longleftrightarrow> files fs p \<noteq> None"

definition path_exists :: "filesystem \<Rightarrow> path \<Rightarrow> bool" where
  "path_exists fs p \<longleftrightarrow> is_dir fs p \<or> is_file fs p"

text \<open>\<open>Path.mkdir(exist_ok=True)\<close>, without \<open>parents\<close>.\<close>

definition mkdir_exist_ok :: "filesystem \<Rightarrow> path \<Rightarrow> error + filesystem" where
  "mkdir_exist_ok fs p =
     (if is_dir fs p then Inr fs
      else if is_file fs p then Inl FileExistsError
      else if is_file fs (butlast p) then Inl NotADirectoryError
      else if \<not> is_dir fs (butlast p) then Inl FileNotFoundError
      else if p \<in> readonly fs then Inl PermissionError
      else Inr (fs\<lparr>dirs := insert p (dirs fs)\<rparr>))"

text \<open>\<open>Path.open('w', encoding='utf-8')\<close>: the file is created or emptied.\<close>

definition open_w :: "filesystem \<Rightarrow> path \<Rightarrow> error + filesystem" where
  "open_w fs p =
     (if is_dir fs p then Inl IsADirectoryError
      else if is_file fs (butlast p) then Inl NotADirectoryError
      else if \<not> is_dir fs (butlast p) then Inl FileNotFoundError
      else if p \<in> readonly fs then Inl PermissionError
      else Inr (fs\<lparr>files := (files fs)(p \<mapsto> Bytes [])\<rparr>))"

text \<open>
  \<open>json.dump(submission, f, indent=4, ensure_ascii=False)\<close> writes the keys and the
  string values unescaped, so it fails exactly when one of them has no UTF-8 encoding; the
  file then keeps what was written before.
\<close>

definition encodable :: "raw_submission \<Rightarrow> bool" where
  "encodable d \<longleftrightarrow>
     list_all (\<lambda>(k, v). utf8_encode k \<noteq> None
        \<and> (case v of PStr s \<Rightarrow> utf8_encode s \<noteq> None | _ \<Rightarrow> True)) d"

definition json_dump :: "filesystem \<Rightarrow> path \<Rightarrow> raw_submission \<Rightarrow> error option \<times> filesystem" where
  "json_dump fs p d =
     (if encodable d then (None, fs\<lparr>files := (files fs)(p \<mapsto> Json_document d)\<rparr>)
      else (Some UnicodeEncodeError, fs\<lparr>files := (files fs)(p \<mapsto> Truncated)\<rparr>))"

text \<open>
  \<open>f.write(v)\<close> on the open file at \<open>p\<close>: a value that is no string is a \<open>TypeError\<close>.
  The text layer leaves line ends as they are (\<open>os.linesep\<close> of a POSIX host).
\<close>

fun file_write :: "filesystem \<Rightarrow> path \<Rightarrow> pyval \<Rightarrow> error option \<times> filesystem" where
  "file_write fs p (PStr s) =
     (case utf8_encode s of
        None \<Rightarrow> (Some UnicodeEncodeError, fs)
      | Some bs \<Rightarrow> (None, fs\<lparr>files := (files fs)(p \<mapsto> Bytes bs)\<rparr>))"
| "file_write fs p v = (Some TypeError, fs)"


section \<open>The scraper\<close>

text \<open>
  What happened to one record: the classification of the handler. \<open>Skipped\<close> is the
  debug line of line 290, \<open>Detail_and_accepted\<close> the info line of line 303, and both
  \<open>Dropped\<close> and \<open>Accepted_failed\<close> are the error line of line 306: the first for an
  exception raised up to the detail write, the second for one raised by the write of the
  accepted file. \<open>Detail_only\<close> logs nothing.
\<close>

datatype outcome =
    Skipped
  | Dropped error
  | Detail_only
  | Detail_and_accepted path
  | Accepted_failed path error

text \<open>The observable effects of a run, in the order they happen.\<close>

datatype event =
    Info_starting
  | Fetch nat
  | Sleep nat
  | Info_no_more
  | Info_processing nat nat
  | Error_parse nat
  | Error_fetch nat
  | Handled raw_submission outcome

text \<open>
  The scraper object together with the world it acts on: the disk, the number of requests
  the browser has issued, and the trace of effects.
\<close>

record scraper =
  username :: pystr
  base_dir :: path
  accepted_dir :: path
  accepted_slugs :: "pystr set"
  disk :: filesystem
  requests :: nat
  trace :: "event list"

definition emit :: "event \<Rightarrow> scraper \<Rightarrow> scraper" where
  "emit e s = s\<lparr>trace := trace s @ [e]\<rparr>"

text \<open>
  \<open>__init__\<close> and \<open>_setup_directories\<close>: an exception of \<open>mkdir\<close> leaves the constructor,
  and the program ends before anything is fetched.
\<close>

definition scraper_init :: "pystr \<Rightarrow> filesystem \<Rightarrow> error + scraper" where
  "scraper_init user fs =
     (let base = [lit ''lcus_'' @ user]; acc = [lit ''Accepted''] in
      case mkdir_exist_ok fs base of
        Inl e \<Rightarrow> Inl e
      | Inr fs1 \<Rightarrow>
          (case mkdir_exist_ok fs1 acc of
             Inl e \<Rightarrow> Inl e
           | Inr fs2 \<Rightarrow>
               Inr \<lparr>username = user, base_dir = base, accepted_dir = acc,
                    accepted_slugs = {}, disk = fs2, requests = 0, trace = []\<rparr>))"

subsection \<open>Handling one record\<close>

text \<open>Lines 286-287: the slug, the folder of the problem and the path of the detail file.\<close>

definition detail_paths :: "scraper \<Rightarrow> submission \<Rightarrow> error + pystr \<times> path \<times> path" where
  "detail_paths s sub =
     (case truediv (base_dir s) (title_slug sub) of
        Inl e \<Rightarrow> Inl e
      | Inr folder_path \<Rightarrow>
          Inr (last folder_path, folder_path,
               folder_path @ [py_str (timestamp sub) @ lit ''.json'']))"

text \<open>Lines 293-295: the folder, then the detail file.\<close>

definition write_detail ::
  "filesystem \<Rightarrow> path \<Rightarrow> path \<Rightarrow> raw_submission \<Rightarrow> error option \<times> filesystem" where
  "write_detail fs folder_path json_path submission =
     (case mkdir_exist_ok fs folder_path of
        Inl e \<Rightarrow> (Some e, fs)
      | Inr fs1 \<Rightarrow>
          (case open_w fs1 json_path of
             Inl e \<Rightarrow> (Some e, fs1)
           | Inr fs2 \<Rightarrow> json_dump fs2 json_path submission))"

text \<open>Line 297: the test that guards the export.\<close>

definition first_accepted :: "scraper \<Rightarrow> submission \<Rightarrow> pystr \<Rightarrow> bool" where
  "first_accepted s sub slug \<longleftrightarrow>
     status sub = PStr (lit ''Accepted'') \<and> slug \<notin> accepted_slugs s"

text \<open>Lines 299-303: the name of the accepted file and its write.\<close>

definition accepted_file :: "scraper \<Rightarrow> submission \<Rightarrow> pystr \<Rightarrow> path" where
  "accepted_file s sub slug =
     accepted_dir s @ [slug @ lit ''.'' @ py_str (lang_extension (lang sub))]"

definition write_accepted :: "scraper \<Rightarrow> raw_submission \<Rightarrow> submission \<Rightarrow> pystr \<Rightarrow> scraper" where
  "write_accepted s submission sub slug =
     (let accepted_path = accepted_file s sub slug in
      case open_w (disk s) accepted_path of
        Inl e \<Rightarrow> emit (Handled submission (Accepted_failed accepted_path e)) s
      | Inr fs1 \<Rightarrow>
          (case file_write fs1 accepted_path (code sub) of
             (Some e, fs2) \<Rightarrow>
               emit (Handled submission (Accepted_failed accepted_path e)) (s\<lparr>disk := fs2\<rparr>)
           | (None, fs2) \<Rightarrow>
               emit (Handled submission (Detail_and_accepted accepted_path))
                 (s\<lparr>disk := fs2\<rparr>)))"

text \<open>
  \<open>_process_submission\<close>, one invocation run from its first line to its last. Every
  exception is caught and logged, and the record is dropped.
\<close>

definition process_submission :: "scraper \<Rightarrow> raw_submission \<Rightarrow> scraper" where
  "process_submission s submission =
     (case make_submission submission of
        Inl e \<Rightarrow> emit (Handled submission (Dropped e)) s
      | Inr sub \<Rightarrow>
          (case detail_paths s sub of
             Inl e \<Rightarrow> emit (Handled submission (Dropped e)) s
           | Inr (slug, folder_path, json_path) \<Rightarrow>
               if path_exists (disk s) json_path then emit (Handled submission Skipped) s
               else
                 (case write_detail (disk s) folder_path json_path submission of
                    (Some e, fs1) \<Rightarrow> emit (Handled submission (Dropped e)) (s\<lparr>disk := fs1\<rparr>)
                  | (None, fs1) \<Rightarrow>
                      (let s1 = s\<lparr>disk := fs1\<rparr> in
                       if first_accepted s1 sub slug then
                         write_accepted (s1\<lparr>accepted_slugs := insert slug (accepted_slugs s1)\<rparr>)
                           submission sub slug
                       else emit (Handled submission Detail_only) s1))))"

text \<open>
  The handler invocations of one batch, run one after the other in the order of the
  batch: the order in which \<open>executor.map\<close> submits them.
\<close>

definition process_batch :: "scraper \<Rightarrow> raw_submission list \<Rightarrow> scraper" where
  "process_batch s submissions = foldl process_submission s submissions"

subsection \<open>The fetch loop\<close>

text \<open>
  What one request yields: \<open>driver.get\<close> raises, \<open>find_element\<close> raises, the body is no
  JSON, the JSON is no object, or the object with its \<open>submissions_dump\<close> list (if it has
  one). The feed may answer the same offset differently from one request to the next, so
  it takes the number of the request as well.
\<close>

datatype response =
    Get_error
  | Element_error
  | Not_json
  | Not_object
  | Body "raw_submission list option"

type_synonym feed = "nat \<Rightarrow> nat \<Rightarrow> response"

text \<open>The two \<open>except\<close> clauses: log, sleep five seconds, and go round again.\<close>

definition on_decode_error :: "nat \<Rightarrow> scraper \<Rightarrow> scraper" where
  "on_decode_error offset s = emit (Sleep 5) (emit (Error_parse offset) s)"

definition on_exception :: "nat \<Rightarrow> scraper \<Rightarrow> scraper" where
  "on_exception offset s = emit (Sleep 5) (emit (Error_fetch offset) s)"

text \<open>
  One pass through the body of \<open>while True\<close>: whether the loop goes on, the next offset
  and the next state.
\<close>

definition fetch_iteration :: "feed \<Rightarrow> nat \<Rightarrow> scraper \<Rightarrow> bool \<times> nat \<times> scraper" where
  "fetch_iteration feed offset s =
     (let s1 = emit (Fetch offset) (s\<lparr>requests := Suc (requests s)\<rparr>) in
      case feed (requests s) offset of
        Get_error \<Rightarrow> (True, offset, on_exception offset s1)
      | Element_error \<Rightarrow> (True, offset, on_exception offset (emit (Sleep 2) s1))
      | Not_json \<Rightarrow> (True, offset, on_decode_error offset (emit (Sleep 2) s1))
      | Not_object \<Rightarrow> (True, offset, on_exception offset (emit (Sleep 2) s1))
      | Body dump \<Rightarrow>
          (let submissions = (case dump of None \<Rightarrow> [] | Some l \<Rightarrow> l);
               s2 = emit (Sleep 2) s1
           in if submissions = [] then (False, offset, emit Info_no_more s2)
              else (True, offset + BATCH_SIZE,
                    process_batch
                      (emit (Info_processing (length submissions) offset) s2) submissions)))"

partial_function (option) fetch_loop :: "feed \<Rightarrow> nat \<Rightarrow> scraper \<Rightarrow> scraper option" where
  "fetch_loop feed offset s =
     (case fetch_iteration feed offset s of
        (go_on, offset', s') \<Rightarrow> if go_on then fetch_loop feed offset' s' else Some s')"

declare fetch_loop.simps [code]

definition fetch_submissions :: "feed \<Rightarrow> scraper \<Rightarrow> scraper option" where
  "fetch_submissions feed s = fetch_loop feed 0 (emit Info_starting s)"

text \<open>The first \<open>k\<close> passes of the loop (fewer if it ends before).\<close>

fun fetch_steps :: "feed \<Rightarrow> nat \<Rightarrow> bool \<times> nat \<times> scraper \<Rightarrow> bool \<times> nat \<times> scraper" where
  "fetch_steps feed 0 c = c"
| "fetch_steps feed (Suc k) (go_on, offset, s) =
     (if go_on then fetch_steps feed k (fetch_iteration feed offset s)
      else (go_on, offset, s))"

text \<open>
  A run of the program on a disk: the constructor, then the fetch loop (the login is the
  session provider's). \<open>None\<close>: the loop never ends.
\<close>

definition run :: "pystr \<Rightarrow> feed \<Rightarrow> filesystem \<Rightarrow> (error + scraper) option" where
  "run user feed fs =
     (case scraper_init user fs of
        Inl e \<Rightarrow> Some (Inl e)
      | Inr s \<Rightarrow> map_option Inr (fetch_submissions feed s))"

subsection \<open>The worker pool\<close>

text \<open>
  \<open>executor.map\<close> hands the records of a batch to \<open>MAX_WORKERS\<close> threads, and the
  \<open>with\<close> block waits for all of them. Between two statements of the handler another
  thread may run: no lock is taken anywhere in the source. A job is one invocation of
  the handler, at a point between two of its accesses to the disk and to the set: not yet
  started; past the existence check (before line 293); past the detail file (before the
  test of line 297); past the test (before line 298); past the \<open>add\<close> (before line 299);
  returned.
\<close>

datatype job =
    Queued raw_submission
  | At_write raw_submission submission pystr path path
  | At_test raw_submission submission pystr
  | At_add raw_submission submission pystr
  | At_export raw_submission submission pystr
  | Finished

fun worker_step :: "scraper \<Rightarrow> job \<Rightarrow> scraper \<times> job" where
  "worker_step s (Queued submission) =
     (case make_submission submission of
        Inl e \<Rightarrow> (emit (Handled submission (Dropped e)) s, Finished)
      | Inr sub \<Rightarrow>
          (case detail_paths s sub of
             Inl e \<Rightarrow> (emit (Handled submission (Dropped e)) s, Finished)
           | Inr (slug, folder_path, json_path) \<Rightarrow>
               if path_exists (disk s) json_path
               then (emit (Handled submission Skipped) s, Finished)
               else (s, At_write submission sub slug folder_path json_path)))"
| "worker_step s (At_write submission sub slug folder_path json_path) =
     (case write_detail (disk s) folder_path json_path submission of
        (Some e, fs1) \<Rightarrow> (emit (Handled submission (Dropped e)) (s\<lparr>disk := fs1\<rparr>), Finished)
      | (None, fs1) \<Rightarrow> (s\<lparr>disk := fs1\<rparr>, At_test submission sub slug))"
| "worker_step s (At_test submission sub slug) =
     (if first_accepted s sub slug then (s, At_add submission sub slug)
      else (emit (Handled submission Detail_only) s, Finished))"
| "worker_step s (At_add submission sub slug) =
     (s\<lparr>accepted_slugs := insert slug (accepted_slugs s)\<rparr>, At_export submission sub slug)"
| "worker_step s (At_export submission sub slug) =
     (write_accepted s submission sub slug, Finished)"
| "worker_step s Finished = (s, Finished)"

text \<open>The first \<open>n\<close> steps of one job, with no other thread in between.\<close>

fun worker_run :: "nat \<Rightarrow> scraper \<times> job \<Rightarrow> scraper \<times> job" where
  "worker_run 0 c = c"
| "worker_run (Suc n) (s, j) = worker_run n (worker_step s j)"

fun is_queued :: "job \<Rightarrow> bool" where
  "is_queued (Queued submission) = True"
| "is_queued j = False"

fun in_flight :: "job \<Rightarrow> bool" where
  "in_flight (Queued submission) = False"
| "in_flight Finished = False"
| "in_flight j = True"

text \<open>
  Job \<open>i\<close> can take a step: a job that has started and not returned always can; a queued
  job can start when the jobs before it have started and a thread is free.
\<close>

definition may_run :: "job list \<Rightarrow> nat \<Rightarrow> bool" where
  "may_run jobs i \<longleftrightarrow>
     i < length jobs \<and>
     (in_flight (jobs ! i)
      \<or> (is_queued (jobs ! i) \<and> list_all (\<lambda>j. \<not> is_queued j) (take i jobs)
          \<and> length (filter in_flight jobs) < MAX_WORKERS))"

definition pool_step :: "scraper \<times> job list \<Rightarrow> nat \<Rightarrow> scraper \<times> job list" where
  "pool_step c i =
     (case c of (s, jobs) \<Rightarrow>
        if may_run jobs i
        then (case worker_step s (jobs ! i) of (s', j') \<Rightarrow> (s', jobs[i := j']))
        else (s, jobs))"

text \<open>A batch run by the pool under a schedule: the job that steps, step after step.\<close>

definition run_pool :: "nat list \<Rightarrow> scraper \<Rightarrow> raw_submission list \<Rightarrow> scraper \<times> job list" where
  "run_pool schedule s submissions = foldl pool_step (s, map Queued submissions) schedule"

subsection \<open>What the trace says about the accepted files\<close>

fun export_attempt :: "outcome \<Rightarrow> bool" where
  "export_attempt (Detail_and_accepted p) = True"
| "export_attempt (Accepted_failed p e) = True"
| "export_attempt out = False"

text \<open>The record of the event is one of problem \<open>slug\<close>.\<close>

fun handled_slug :: "pystr \<Rightarrow> event \<Rightarrow> bool" where
  "handled_slug slug (Handled submission out) =
     (map_of submission (lit ''title_slug'') = Some (PStr slug))"
| "handled_slug slug e = False"

fun export_of :: "pystr \<Rightarrow> event \<Rightarrow> bool" where
  "export_of slug (Handled submission out) =
     (map_of submission (lit ''title_slug'') = Some (PStr slug) \<and> export_attempt out)"
| "export_of slug e = False"


text \<open>The record of the event has the status \<open>'Accepted'\<close>.\<close>

definition accepted_record :: "raw_submission \<Rightarrow> bool" where
  "accepted_record submission \<longleftrightarrow>
     map_of submission (lit ''status_display'') = Some (PStr (lit ''Accepted''))"

text \<open>
  An accepted record of problem \<open>slug\<close> that got as far as line 297: it was neither skipped
  nor dropped.
\<close>

fun reached_check :: "pystr \<Rightarrow> event \<Rightarrow> bool" where
  "reached_check slug (Handled submission out) =
     (map_of submission (lit ''title_slug'') = Some (PStr slug) \<and> accepted_record submission
      \<and> out \<noteq> Skipped \<and> (\<forall>e. out \<noteq> Dropped e))"
| "reached_check slug e = False"

text \<open>
  The invariant of the dedup set: a problem that is not in the set has no accepted record
  that reached line 297; every export is of an accepted record; and around an export of a
  problem there is no other one, nor before it an accepted record of the problem that
  reached line 297.
\<close>

definition dedup_inv :: "scraper \<Rightarrow> bool" where
  "dedup_inv s \<longleftrightarrow>
     (\<forall>slug.
        (slug \<notin> accepted_slugs s \<longrightarrow> (\<forall>x \<in> set (trace s). \<not> reached_check slug x)) \<and>
        (\<forall>x \<in> set (trace s). export_of slug x \<longrightarrow> reached_check slug x) \<and>
        (\<forall>pre e post. trace s = pre @ e # post \<and> export_of slug e \<longrightarrow>
           (\<forall>x \<in> set pre. \<not> reached_check slug x) \<and> (\<forall>x \<in> set post. \<not> export_of slug x)))"

subsection \<open>What the trace says about the fetch loop\<close>

text \<open>The offsets of the requests, in the order they were made.\<close>

fun fetch_offsets :: "event list \<Rightarrow> nat list" where
  "fetch_offsets [] = []"
| "fetch_offsets (Fetch offset # es) = offset # fetch_offsets es"
| "fetch_offsets (e # es) = fetch_offsets es"

text \<open>
  The responses that raise inside the \<open>try\<close> block: a transport failure, a body that is
  no JSON, a JSON value without \<open>get\<close>.
\<close>

fun fetch_failure :: "response \<Rightarrow> bool" where
  "fetch_failure (Body dump) = False"
| "fetch_failure r = True"

text \<open>
  A feed whose batches are non-empty at the offsets \<open>0\<close>, \<open>BATCH_SIZE\<close>, \<open>2 * BATCH_SIZE\<close>,
  ... below \<open>K\<close>, and whose \<open>submissions_dump\<close> is empty or absent at offset \<open>K\<close>.
\<close>

definition feed_ends_at :: "feed \<Rightarrow> nat \<Rightarrow> bool" where
  "feed_ends_at feed K \<longleftrightarrow>
     BATCH_SIZE dvd K \<and>
     (\<forall>n offset. offset < K \<and> BATCH_SIZE dvd offset \<longrightarrow>
        (\<exists>l. feed n offset = Body (Some l) \<and> l \<noteq> [])) \<and>
     (\<forall>n. feed n K = Body None \<or> feed n K = Body (Some []))"

subsection \<open>What a second run finds on disk\<close>




text \<open>
  How the program changes a disk: nothing is removed, and a directory is only made where
  the disk allows it.
\<close>

definition evolves :: "filesystem \<Rightarrow> filesystem \<Rightarrow> bool" where
  "evolves fs fs' \<longleftrightarrow>
     readonly fs' = readonly fs \<and> dirs fs \<subseteq> dirs fs' \<and> dom (files fs) \<subseteq> dom (files fs') \<and>
     (\<forall>p \<in> dirs fs' - dirs fs.
        p \<notin> readonly fs \<and> files fs p = None \<and> files fs (butlast p) = None)"



text \<open>The classifications of the records handled, in order.\<close>

fun outcomes :: "event list \<Rightarrow> outcome list" where
  "outcomes [] = []"
| "outcomes (Handled submission out # es) = out # outcomes es"
| "outcomes (e # es) = outcomes es"

subsection \<open>What a run does to the accepted files\<close>

text \<open>The accepted file an event opened for writing, if it did.\<close>

fun export_path :: "event \<Rightarrow> path option" where
  "export_path (Handled submission (Detail_and_accepted p)) = Some p"
| "export_path (Handled submission (Accepted_failed p e)) = Some p"
| "export_path e = None"

text \<open>
  The invariant of the accepted files, against the files \<open>before\<close> the run: a file next to
  the accepted directory's entries differs from what it was only if an event of the trace
  opened it; and a successful export that no later event has written over is on disk,
  with the code of its record.
\<close>

definition accepted_files_inv :: "(path \<rightharpoonup> content) \<Rightarrow> scraper \<Rightarrow> bool" where
  "accepted_files_inv before s \<longleftrightarrow>
     length (base_dir s) = length (accepted_dir s) \<and>
     (\<forall>name. files (disk s) (accepted_dir s @ [name]) \<noteq> before (accepted_dir s @ [name]) \<longrightarrow>
        (\<exists>x \<in> set (trace s). export_path x = Some (accepted_dir s @ [name]))) \<and>
     (\<forall>pre submission p post.
        trace s = pre @ Handled submission (Detail_and_accepted p) # post
        \<and> (\<forall>x \<in> set post. export_path x \<noteq> Some p) \<longrightarrow>
          (\<exists>name. p = accepted_dir s @ [name]) \<and>
          (\<exists>c bs. map_of submission (lit ''code'') = Some (PStr c) \<and> utf8_encode c = Some bs
             \<and> files (disk s) p = Some (Bytes bs)))"

subsection \<open>Example data\<close>

definition example_record :: "string \<Rightarrow> int \<Rightarrow> string \<Rightarrow> string \<Rightarrow> pystr \<Rightarrow> raw_submission" where
  "example_record slug ts st l c =
     [(lit ''title_slug'', PStr (lit slug)), (lit ''lang'', PStr (lit l)),
      (lit ''timestamp'', PInt ts), (lit ''status_display'', PStr (lit st)),
      (lit ''code'', PStr c)]"

definition empty_disk :: filesystem where
  "empty_disk = \<lparr>dirs = {}, files = Map.empty, readonly = {}\<rparr>"

text \<open>The scraper of user \<open>u\<close> right after its constructor, on a disk that was empty.\<close>

definition example_start :: scraper where
  "example_start =
     \<lparr>username = lit ''u'', base_dir = [lit ''lcus_u''], accepted_dir = [lit ''Accepted''],
      accepted_slugs = {},
      disk = \<lparr>dirs = {[lit ''Accepted''], [lit ''lcus_u'']}, files = Map.empty, readonly = {}\<rparr>,
      requests = 0, trace = []\<rparr>"

text \<open>
  A feed of one batch: two accepted submissions of the same problem, the newer one first,
  in two languages; the first holds a character outside ASCII.
\<close>

definition two_accepted :: "raw_submission list" where
  "two_accepted =
     [example_record ''two-sum'' 18 ''Accepted'' ''python3'' (lit ''# caf'' @ [233]),
      example_record ''two-sum'' 17 ''Accepted'' ''cpp'' (lit ''int x;'')]"

definition example_feed :: feed where
  "example_feed n offset = (if offset = 0 then Body (Some two_accepted) else Body (Some []))"

text \<open>
  The same scraper after a restart, on a disk that already holds the detail file of the
  first record of the batch (and nothing under \<open>Accepted\<close>).
\<close>

definition restarted :: scraper where
  "restarted =
     example_start\<lparr>disk :=
       \<lparr>dirs = {[lit ''Accepted''], [lit ''lcus_u''], [lit ''lcus_u'', lit ''two-sum'']},
        files = [[lit ''lcus_u'', lit ''two-sum'', lit ''18.json'']
                   \<mapsto> Json_document (hd two_accepted)],
        readonly = {}\<rparr>\<rparr>"

text \<open>An accepted submission in a language the table does not know.\<close>

definition foobar_record :: raw_submission where
  "foobar_record = example_record ''two-sum'' 19 ''Accepted'' ''foobar'' (lit ''x'')"

text \<open>The scraper on a disk that refuses the write of \<open>Accepted/two-sum.py\<close>.\<close>

definition write_refused :: scraper where
  "write_refused =
     example_start\<lparr>disk :=
       \<lparr>dirs = {[lit ''Accepted''], [lit ''lcus_u'']}, files = Map.empty,
        readonly = {[lit ''Accepted'', lit ''two-sum.py'']}\<rparr>\<rparr>"

text \<open>A feed whose body is never JSON, and one whose first response only is no JSON.\<close>

definition failing_feed :: feed where
  "failing_feed n offset = Not_json"

definition flaky_feed :: feed where
  "flaky_feed n offset = (if n = 0 then Not_json else example_feed n offset)"





section \<open>Properties of the handler\<close>

lemma make_submission_fields:
  assumes "make_submission d = Inr sub"
  shows "map_of d (lit ''title_slug'') = Some (title_slug sub)"
    and "map_of d (lit ''lang'') = Some (lang sub)"
    and "map_of d (lit ''timestamp'') = Some (timestamp sub)"
    and "map_of d (lit ''status_display'') = Some (status sub)"
    and "map_of d (lit ''code'') = Some (code sub)"
  using assms
  by (auto simp: make_submission_def getitem_def split: option.splits sum.splits)

lemma detail_paths_Inr:
  assumes "detail_paths s sub = Inr (slug, folder_path, json_path)"
  shows "title_slug sub = PStr slug"
    and "folder_path = base_dir s @ [slug]"
    and "json_path = base_dir s @ [slug, py_str (timestamp sub) @ lit ''.json'']"
  using assms by (cases "title_slug sub"; simp add: detail_paths_def)+

lemma write_accepted_cases [case_names Open_failed Write_failed Written]:
  obtains
    (Open_failed) e where
      "open_w (disk s) (accepted_file s sub slug) = Inl e"
      "write_accepted s submission sub slug =
         emit (Handled submission (Accepted_failed (accepted_file s sub slug) e)) s"
  | (Write_failed) fs1 e fs2 where
      "open_w (disk s) (accepted_file s sub slug) = Inr fs1"
      "file_write fs1 (accepted_file s sub slug) (code sub) = (Some e, fs2)"
      "write_accepted s submission sub slug =
         emit (Handled submission (Accepted_failed (accepted_file s sub slug) e))
           (s\<lparr>disk := fs2\<rparr>)"
  | (Written) fs1 fs2 where
      "open_w (disk s) (accepted_file s sub slug) = Inr fs1"
      "file_write fs1 (accepted_file s sub slug) (code sub) = (None, fs2)"
      "write_accepted s submission sub slug =
         emit (Handled submission (Detail_and_accepted (accepted_file s sub slug)))
           (s\<lparr>disk := fs2\<rparr>)"
  unfolding write_accepted_def Let_def
  by (cases "open_w (disk s) (accepted_file s sub slug)";
      cases "file_write (projr (open_w (disk s) (accepted_file s sub slug)))
               (accepted_file s sub slug) (code sub)";
      cases "fst (file_write (projr (open_w (disk s) (accepted_file s sub slug)))
               (accepted_file s sub slug) (code sub))"; simp)

lemma process_submission_cases
  [case_names Parse_error Path_error Skip Detail_error Only Export]:
  obtains
    (Parse_error) e where
      "make_submission submission = Inl e"
      "process_submission s submission = emit (Handled submission (Dropped e)) s"
  | (Path_error) sub e where
      "make_submission submission = Inr sub"
      "detail_paths s sub = Inl e"
      "process_submission s submission = emit (Handled submission (Dropped e)) s"
  | (Skip) sub slug folder_path json_path where
      "make_submission submission = Inr sub"
      "detail_paths s sub = Inr (slug, folder_path, json_path)"
      "path_exists (disk s) json_path"
      "process_submission s submission = emit (Handled submission Skipped) s"
  | (Detail_error) sub slug folder_path json_path e fs1 where
      "make_submission submission = Inr sub"
      "detail_paths s sub = Inr (slug, folder_path, json_path)"
      "\<not> path_exists (disk s) json_path"
      "write_detail (disk s) folder_path json_path submission = (Some e, fs1)"
      "process_submission s submission =
         emit (Handled submission (Dropped e)) (s\<lparr>disk := fs1\<rparr>)"
  | (Only) sub slug folder_path json_path fs1 where
      "make_submission submission = Inr sub"
      "detail_paths s sub = Inr (slug, folder_path, json_path)"
      "\<not> path_exists (disk s) json_path"
      "write_detail (disk s) folder_path json_path submission = (None, fs1)"
      "\<not> first_accepted s sub slug"
      "process_submission s submission =
         emit (Handled submission Detail_only) (s\<lparr>disk := fs1\<rparr>)"
  | (Export) sub slug folder_path json_path fs1 where
      "make_submission submission = Inr sub"
      "detail_paths s sub = Inr (slug, folder_path, json_path)"
      "\<not> path_exists (disk s) json_path"
      "write_detail (disk s) folder_path json_path submission = (None, fs1)"
      "first_accepted s sub slug"
      "process_submission s submission =
         write_accepted (s\<lparr>disk := fs1, accepted_slugs := insert slug (accepted_slugs s)\<rparr>)
           submission sub slug"
proof (cases "make_submission submission")
  case (Inl e)
  then show ?thesis by (auto simp: process_submission_def intro: Parse_error)
next
  case (Inr sub)
  note sub = this
  show ?thesis
  proof (cases "detail_paths s sub")
    case (Inl e)
    with sub show ?thesis by (auto simp: process_submission_def intro: Path_error)
  next
    case (Inr t)
    then obtain slug folder_path json_path
      where paths: "detail_paths s sub = Inr (slug, folder_path, json_path)"
      by (cases t) auto
    show ?thesis
    proof (cases "path_exists (disk s) json_path")
      case True
      with sub paths show ?thesis by (auto simp: process_submission_def intro: Skip)
    next
      case False
      obtain r fs1 where w: "write_detail (disk s) folder_path json_path submission = (r, fs1)"
        by (cases "write_detail (disk s) folder_path json_path submission") auto
      show ?thesis
      proof (cases r)
        case (Some e)
        with sub paths False w show ?thesis
          by (auto simp: process_submission_def intro: Detail_error)
      next
        case None
        show ?thesis
        proof (cases "first_accepted s sub slug")
          case True
          with sub paths False w None show ?thesis
            by (intro Export [of sub slug folder_path json_path fs1])
               (auto simp: process_submission_def first_accepted_def Let_def)
        next
          case no: False
          with sub paths False w None show ?thesis
            by (intro Only [of sub slug folder_path json_path fs1])
               (auto simp: process_submission_def first_accepted_def Let_def)
        qed
      qed
    qed
  qed
qed

lemma emit_simps [simp]:
  "trace (emit e s) = trace s @ [e]"
  "accepted_slugs (emit e s) = accepted_slugs s"
  "disk (emit e s) = disk s"
  "base_dir (emit e s) = base_dir s"
  "accepted_dir (emit e s) = accepted_dir s"
  "requests (emit e s) = requests s"
  "username (emit e s) = username s"
  by (simp_all add: emit_def)

text \<open>What one invocation of the handler does to the trace and to the set.\<close>

lemma write_accepted_effect:
  "\<exists>out. export_attempt out \<and>
     trace (write_accepted s submission sub slug) = trace s @ [Handled submission out] \<and>
     accepted_slugs (write_accepted s submission sub slug) = accepted_slugs s"
  by (rule write_accepted_cases
        [where s = s and submission = submission and sub = sub and slug = slug]) auto

lemma process_submission_effect:
  "\<exists>out.
    trace (process_submission s submission) = trace s @ [Handled submission out] \<and>
    accepted_slugs s \<subseteq> accepted_slugs (process_submission s submission) \<and>
    (\<forall>slug. export_of slug (Handled submission out) \<longrightarrow>
       slug \<notin> accepted_slugs s \<and> slug \<in> accepted_slugs (process_submission s submission)
       \<and> accepted_record submission) \<and>
    (\<forall>slug. reached_check slug (Handled submission out)
       \<and> \<not> export_of slug (Handled submission out) \<longrightarrow> slug \<in> accepted_slugs s) \<and>
    (\<not> export_attempt out \<longrightarrow>
       accepted_slugs (process_submission s submission) = accepted_slugs s)"
proof (cases rule: process_submission_cases [where s = s and submission = submission])
  case (Parse_error e)
  then show ?thesis by (intro exI [of _ "Dropped e"]) auto
next
  case (Path_error sub e)
  then show ?thesis by (intro exI [of _ "Dropped e"]) auto
next
  case (Skip sub slug folder_path json_path)
  then show ?thesis by (intro exI [of _ Skipped]) auto
next
  case (Detail_error sub slug folder_path json_path e fs1)
  then show ?thesis by (intro exI [of _ "Dropped e"]) auto
next
  case (Only sub slug folder_path json_path fs1)
  have "map_of submission (lit ''title_slug'') = Some (PStr slug)"
    and "map_of submission (lit ''status_display'') = Some (status sub)"
    using make_submission_fields [OF Only(1)] detail_paths_Inr(1) [OF Only(2)] by simp_all
  with Only show ?thesis
    by (intro exI [of _ Detail_only]) (auto simp: first_accepted_def accepted_record_def)
next
  case (Export sub slug folder_path json_path fs1)
  let ?s1 = "s\<lparr>disk := fs1, accepted_slugs := insert slug (accepted_slugs s)\<rparr>"
  have slug: "map_of submission (lit ''title_slug'') = Some (PStr slug)"
    and st: "map_of submission (lit ''status_display'') = Some (status sub)"
    using make_submission_fields [OF Export(1)] detail_paths_Inr(1) [OF Export(2)] by simp_all
  obtain out where out: "export_attempt out"
    "trace (write_accepted ?s1 submission sub slug) = trace ?s1 @ [Handled submission out]"
    "accepted_slugs (write_accepted ?s1 submission sub slug) = accepted_slugs ?s1"
    using write_accepted_effect [of ?s1 submission sub slug] by blast
  with Export slug st show ?thesis
    by (intro exI [of _ out]) (auto simp: first_accepted_def accepted_record_def)
qed


lemma dedup_inv_requests [simp]: "dedup_inv (s\<lparr>requests := n\<rparr>) = dedup_inv s"
  by (simp add: dedup_inv_def)










lemmas model_defs =
  scraper_init_def process_batch_def process_submission_def make_submission_def getitem_def
  detail_paths_def write_detail_def mkdir_exist_ok_def open_w_def json_dump_def encodable_def
  first_accepted_def write_accepted_def accepted_file_def emit_def is_dir_def is_file_def
  path_exists_def lit_def LANG_EXTENSIONS_def str_int_def dec_digits.simps utf8_char_def Let_def
  fetch_iteration_def on_exception_def on_decode_error_def BATCH_SIZE_def

lemmas example_defs =
  example_record_def empty_disk_def example_start_def two_accepted_def example_feed_def


lemma fetch_steps_numeral:
  "fetch_steps feed (numeral n) (go_on, offset, s) =
     (if go_on then fetch_steps feed (pred_numeral n) (fetch_iteration feed offset s)
      else (go_on, offset, s))"
  by (simp add: numeral_eq_Suc)


lemmas more_example_defs = restarted_def foobar_record_def write_refused_def

text \<open>
  C7. A record whose detail file is already on disk is skipped: the handler logs the skip
  and changes nothing else, whatever the status of the record and the contents of the
  accepted set. In particular nothing is exported, and the problem is not added to the
  set: a restarted scraper, whose set is empty, does not learn from such a record that
  the problem was accepted.
\<close>

theorem existing_detail_is_skipped:
  assumes "make_submission submission = Inr sub"
    and "title_slug sub = PStr slug"
    and "path_exists (disk s) (base_dir s @ [slug, py_str (timestamp sub) @ lit ''.json''])"
  shows "process_submission s submission = emit (Handled submission Skipped) s
    \<and> disk (process_submission s submission) = disk s
    \<and> accepted_slugs (process_submission s submission) = accepted_slugs s
    \<and> trace (process_submission s submission) = trace s @ [Handled submission Skipped]"
proof -
  from assms(2) have "detail_paths s sub =
    Inr (slug, base_dir s @ [slug], base_dir s @ [slug, py_str (timestamp sub) @ lit ''.json''])"
    by (simp add: detail_paths_def)
  with assms(1,3) have "process_submission s submission = emit (Handled submission Skipped) s"
    by (simp add: process_submission_def)
  then show ?thesis by simp
qed

theorem existing_detail_is_skipped_witness:
  "make_submission (hd two_accepted) =
     Inr \<lparr>title_slug = PStr (lit ''two-sum''), lang = PStr (lit ''python3''),
          timestamp = PInt 18, status = PStr (lit ''Accepted''),
          code = PStr (lit ''# caf'' @ [233])\<rparr>
   \<and> path_exists (disk restarted) (base_dir restarted @ [lit ''two-sum'', lit ''18.json''])
   \<and> accepted_slugs restarted = {}
   \<and> accepted_slugs (process_submission restarted (hd two_accepted)) = {}
   \<and> disk (process_submission restarted (hd two_accepted)) = disk restarted
   \<and> trace (process_submission restarted (hd two_accepted)) = [Handled (hd two_accepted) Skipped]"
proof -
  let ?sub = "\<lparr>title_slug = PStr (lit ''two-sum''), lang = PStr (lit ''python3''),
          timestamp = PInt 18, status = PStr (lit ''Accepted''),
          code = PStr (lit ''# caf'' @ [233])\<rparr>"
  have 1: "make_submission (hd two_accepted) = Inr ?sub"
    by (simp add: model_defs example_defs more_example_defs)
  have 2: "title_slug ?sub = PStr (lit ''two-sum'')" by simp
  have 3: "path_exists (disk restarted)
     (base_dir restarted @ [lit ''two-sum'', py_str (timestamp ?sub) @ lit ''.json''])"
    by (simp add: model_defs example_defs more_example_defs)
  have 4: "py_str (timestamp ?sub) @ lit ''.json'' = lit ''18.json''"
    by (simp add: model_defs)
  have 5: "accepted_slugs restarted = {}" "trace restarted = []"
    by (simp_all add: example_defs more_example_defs)
  from existing_detail_is_skipped [OF 1 2 3] 1 3 4 5 show ?thesis by simp
qed

subsection \<open>The UTF-8 codec\<close>









subsection \<open>The accepted file\<close>

lemma file_write_None:
  assumes "file_write fs p v = (None, fs')"
  obtains c bs where "v = PStr c" "utf8_encode c = Some bs"
    "fs' = fs\<lparr>files := (files fs)(p \<mapsto> Bytes bs)\<rparr>"
  using assms by (cases v) (auto split: option.splits)

lemma accepted_file_frame [simp]:
  "accepted_file (s\<lparr>disk := fs\<rparr>) sub slug = accepted_file s sub slug"
  "accepted_file (s\<lparr>accepted_slugs := A\<rparr>) sub slug = accepted_file s sub slug"
  by (simp_all add: accepted_file_def)

text \<open>What stands behind a successful export in the trace.\<close>

lemma export_written:
  assumes "trace (process_submission s submission)
             = trace s @ [Handled submission (Detail_and_accepted p)]"
  obtains sub slug c bs where
    "make_submission submission = Inr sub" "title_slug sub = PStr slug"
    "status sub = PStr (lit ''Accepted'')" "slug \<notin> accepted_slugs s"
    "p = accepted_file s sub slug" "code sub = PStr c" "utf8_encode c = Some bs"
    "files (disk (process_submission s submission)) p = Some (Bytes bs)"
    "accepted_slugs (process_submission s submission) = insert slug (accepted_slugs s)"
proof (cases rule: process_submission_cases [where s = s and submission = submission])
  case (Export sub slug folder_path json_path fs1)
  let ?s1 = "s\<lparr>disk := fs1, accepted_slugs := insert slug (accepted_slugs s)\<rparr>"
  have slug: "title_slug sub = PStr slug" using detail_paths_Inr(1) [OF Export(2)] .
  from Export(5) have acc: "status sub = PStr (lit ''Accepted'')" "slug \<notin> accepted_slugs s"
    by (simp_all add: first_accepted_def)
  show ?thesis
  proof (cases rule: write_accepted_cases
      [where s = ?s1 and submission = submission and sub = sub and slug = slug])
    case (Written fs2 fs3)
    from Written(2) obtain c bs where c: "code sub = PStr c" "utf8_encode c = Some bs"
      "fs3 = fs2\<lparr>files := (files fs2)(accepted_file ?s1 sub slug \<mapsto> Bytes bs)\<rparr>"
      by (rule file_write_None)
    from assms Export(6) Written(3) have p: "p = accepted_file s sub slug" by simp
    with Export(6) Written(3) c
    have "files (disk (process_submission s submission)) p = Some (Bytes bs)"
      "accepted_slugs (process_submission s submission) = insert slug (accepted_slugs s)"
      by simp_all
    with Export(1) slug acc p c show ?thesis by (intro that)
  qed (use assms Export(6) in auto)
qed (use assms in auto)


lemma LANG_EXTENSIONS_distinct: "distinct (map fst LANG_EXTENSIONS)"
  by (simp add: LANG_EXTENSIONS_def lit_def)

text \<open>
  C8. The accepted file of a record is named by the problem identifier, a dot and an
  extension: the raw language identifier when the table \<open>LANG_EXTENSIONS\<close> has no entry
  for it, the entry of the table when it has one. The file is on disk after the export.
\<close>

theorem accepted_file_extension:
  assumes "trace (process_submission s submission)
             = trace s @ [Handled submission (Detail_and_accepted p)]"
    and "map_of submission (lit ''title_slug'') = Some (PStr slug)"
    and "map_of submission (lit ''lang'') = Some (PStr l)"
  shows "(l \<notin> fst ` set LANG_EXTENSIONS \<longrightarrow> p = accepted_dir s @ [slug @ lit ''.'' @ l])
    \<and> (\<forall>e. (l, e) \<in> set LANG_EXTENSIONS \<longrightarrow> p = accepted_dir s @ [slug @ lit ''.'' @ e])
    \<and> is_file (disk (process_submission s submission)) p"
proof -
  from assms(1) obtain sub slug' c bs where sub: "make_submission submission = Inr sub"
    and slug': "title_slug sub = PStr slug'" and p: "p = accepted_file s sub slug'"
    and onfile: "files (disk (process_submission s submission)) p = Some (Bytes bs)"
    by (rule export_written)
  from make_submission_fields [OF sub] assms(2,3) slug'
  have "slug' = slug" and l: "lang sub = PStr l" by simp_all
  with p have p': "p = accepted_dir s @ [slug @ lit ''.'' @ py_str (lang_extension (PStr l))]"
    by (simp add: accepted_file_def)
  have "p = accepted_dir s @ [slug @ lit ''.'' @ l]" if "l \<notin> fst ` set LANG_EXTENSIONS"
  proof -
    from that have "map_of LANG_EXTENSIONS l = None" by (simp add: map_of_eq_None_iff)
    with p' show ?thesis by simp
  qed
  moreover have "p = accepted_dir s @ [slug @ lit ''.'' @ e]" if "(l, e) \<in> set LANG_EXTENSIONS" for e
  proof -
    from that have "map_of LANG_EXTENSIONS l = Some e"
      by (simp add: LANG_EXTENSIONS_distinct)
    with p' show ?thesis by simp
  qed
  moreover from onfile have "is_file (disk (process_submission s submission)) p"
    by (simp add: is_file_def)
  ultimately show ?thesis by blast
qed


theorem accepted_file_extension_witness:
  "trace (process_submission example_start foobar_record)
     = trace example_start
       @ [Handled foobar_record (Detail_and_accepted [lit ''Accepted'', lit ''two-sum.foobar''])]
   \<and> map_of foobar_record (lit ''title_slug'') = Some (PStr (lit ''two-sum''))
   \<and> map_of foobar_record (lit ''lang'') = Some (PStr (lit ''foobar''))
   \<and> lit ''foobar'' \<notin> fst ` set LANG_EXTENSIONS
   \<and> [lit ''Accepted'', lit ''two-sum.foobar'']
       = accepted_dir example_start @ [lit ''two-sum'' @ lit ''.'' @ lit ''foobar'']
   \<and> is_file (disk (process_submission example_start foobar_record))
       [lit ''Accepted'', lit ''two-sum.foobar'']"
proof -
  have 1: "trace (process_submission example_start foobar_record)
     = trace example_start
       @ [Handled foobar_record (Detail_and_accepted [lit ''Accepted'', lit ''two-sum.foobar''])]"
    by (simp add: model_defs example_defs more_example_defs)
  have 2: "map_of foobar_record (lit ''title_slug'') = Some (PStr (lit ''two-sum''))"
    and 3: "map_of foobar_record (lit ''lang'') = Some (PStr (lit ''foobar''))"
    by (simp_all add: lit_def example_defs more_example_defs)
  have 4: "lit ''foobar'' \<notin> fst ` set LANG_EXTENSIONS"
    by (simp add: LANG_EXTENSIONS_def lit_def)
  from accepted_file_extension [OF 1 2 3] 1 2 3 4 show ?thesis by (simp add: lit_def)
qed


subsection \<open>Once a problem is in the set\<close>

lemma accepted_slugs_process_submission:
  "accepted_slugs s \<subseteq> accepted_slugs (process_submission s submission)"
  using process_submission_effect [of s submission] by blast







subsection \<open>The loop and its passes\<close>

lemma fetch_steps_stopped [simp]: "fetch_steps feed k (False, offset, s) = (False, offset, s)"
  by (cases k) simp_all

lemma fetch_steps_Suc_running:
  "fetch_steps feed (Suc k) (True, offset, s) = fetch_steps feed k (fetch_iteration feed offset s)"
  by simp

text \<open>A loop that stops within \<open>k\<close> passes returns the state it stops in.\<close>

lemma fetch_loop_of_steps:
  assumes "fetch_steps feed k (True, offset, s) = (False, offset', s')"
  shows "fetch_loop feed offset s = Some s'"
  using assms
proof (induction k arbitrary: offset s)
  case 0
  then show ?case by simp
next
  case (Suc k)
  obtain g o1 s1 where it: "fetch_iteration feed offset s = (g, o1, s1)"
    by (cases "fetch_iteration feed offset s") auto
  show ?case
  proof (cases g)
    case True
    with Suc.prems it have "fetch_steps feed k (True, o1, s1) = (False, offset', s')" by simp
    then have "fetch_loop feed o1 s1 = Some s'" by (rule Suc.IH)
    with it True show ?thesis by (subst fetch_loop.simps) simp
  next
    case False
    with Suc.prems it have "s1 = s'" by simp
    with it False show ?thesis by (subst fetch_loop.simps) simp
  qed
qed

text \<open>A loop that returns has stopped after some number of passes.\<close>

lemma steps_of_fetch_loop:
  assumes "fetch_loop feed offset s = Some s'"
  shows "\<exists>k offset'. fetch_steps feed k (True, offset, s) = (False, offset', s')"
proof (rule fetch_loop.raw_induct
    [where P = "\<lambda>feed offset s s'.
        \<exists>k offset'. fetch_steps feed k (True, offset, s) = (False, offset', s')", OF _ assms])
  fix f feed offset s s'
  assume IH: "\<And>feed offset s s'. f feed offset s = Some s' \<Longrightarrow>
      \<exists>k offset'. fetch_steps feed k (True, offset, s) = (False, offset', s')"
    and eq: "(case fetch_iteration feed offset s of
        (go_on, offset', s') \<Rightarrow> if go_on then f feed offset' s' else Some s') = Some s'"
  obtain g o1 s1 where it: "fetch_iteration feed offset s = (g, o1, s1)"
    by (cases "fetch_iteration feed offset s") auto
  show "\<exists>k offset'. fetch_steps feed k (True, offset, s) = (False, offset', s')"
  proof (cases g)
    case True
    with eq it have "f feed o1 s1 = Some s'" by simp
    from IH [OF this] obtain k offset' where
      "fetch_steps feed k (True, o1, s1) = (False, offset', s')" by blast
    with it True have "fetch_steps feed (Suc k) (True, offset, s) = (False, offset', s')"
      by simp
    then show ?thesis by blast
  next
    case False
    with eq it have "fetch_steps feed (Suc 0) (True, offset, s) = (False, o1, s')" by simp
    then show ?thesis by blast
  qed
qed

subsection \<open>Failed requests\<close>

lemma fetch_iteration_failure:
  assumes "fetch_failure (feed (requests s) offset)"
  shows "\<exists>evs. fetch_iteration feed offset s
      = (True, offset, s\<lparr>requests := Suc (requests s), trace := trace s @ Fetch offset # evs\<rparr>)
    \<and> (evs = [Error_fetch offset, Sleep 5] \<or> evs = [Sleep 2, Error_fetch offset, Sleep 5]
        \<or> evs = [Sleep 2, Error_parse offset, Sleep 5])"
  using assms
  by (cases "feed (requests s) offset")
     (auto simp: fetch_iteration_def Let_def on_exception_def on_decode_error_def emit_def)

lemma fetch_steps_failing:
  assumes "\<forall>n \<ge> requests s. fetch_failure (feed n offset)"
  shows "\<exists>s'. fetch_steps feed k (True, offset, s) = (True, offset, s')
    \<and> requests s' = requests s + k \<and> disk s' = disk s \<and> accepted_slugs s' = accepted_slugs s
    \<and> fetch_offsets (trace s') = fetch_offsets (trace s) @ replicate k offset"
  using assms
proof (induction k arbitrary: s)
  case 0
  then show ?case by simp
next
  case (Suc k)
  from Suc.prems have "fetch_failure (feed (requests s) offset)" by simp
  from fetch_iteration_failure [of feed s offset, OF this] obtain evs where
    it: "fetch_iteration feed offset s
      = (True, offset, s\<lparr>requests := Suc (requests s), trace := trace s @ Fetch offset # evs\<rparr>)"
    and evs: "evs = [Error_fetch offset, Sleep 5] \<or> evs = [Sleep 2, Error_fetch offset, Sleep 5]
        \<or> evs = [Sleep 2, Error_parse offset, Sleep 5]"
    by blast
  let ?s1 = "s\<lparr>requests := Suc (requests s), trace := trace s @ Fetch offset # evs\<rparr>"
  from Suc.prems have "\<forall>n \<ge> requests ?s1. fetch_failure (feed n offset)" by simp
  from Suc.IH [of ?s1, OF this] obtain s' where
    s': "fetch_steps feed k (True, offset, ?s1) = (True, offset, s')"
    "requests s' = requests ?s1 + k" "disk s' = disk ?s1" "accepted_slugs s' = accepted_slugs ?s1"
    "fetch_offsets (trace s') = fetch_offsets (trace ?s1) @ replicate k offset"
    by blast
  have app: "fetch_offsets (xs @ ys) = fetch_offsets xs @ fetch_offsets ys" for xs ys
    by (induction xs rule: fetch_offsets.induct) simp_all
  from evs have "fetch_offsets (trace ?s1) = fetch_offsets (trace s) @ [offset]"
    by (auto simp: app)
  with s' it show ?case by (simp add: replicate_app_Cons_same)
qed

text \<open>
  C4. A request that fails (the transport raises, the body is no JSON, or the JSON has no
  \<open>get\<close>) is logged, followed by a sleep of five seconds, and the loop goes on at the
  same offset. When every request at the offset fails, this repeats for ever: after any
  number of passes the loop is still running at that offset, having made that many
  requests there, with disk and accepted set untouched; and the loop never returns.
\<close>

theorem failed_fetch_is_retried:
  "(fetch_failure (feed (requests s) offset) \<longrightarrow>
      (\<exists>evs. fetch_iteration feed offset s
         = (True, offset, s\<lparr>requests := Suc (requests s),
                             trace := trace s @ Fetch offset # evs\<rparr>)
        \<and> (evs = [Error_fetch offset, Sleep 5] \<or> evs = [Sleep 2, Error_fetch offset, Sleep 5]
            \<or> evs = [Sleep 2, Error_parse offset, Sleep 5])))
   \<and> ((\<forall>n \<ge> requests s. fetch_failure (feed n offset)) \<longrightarrow>
        fetch_loop feed offset s = None
        \<and> (\<forall>k. \<exists>s'. fetch_steps feed k (True, offset, s) = (True, offset, s')
              \<and> requests s' = requests s + k \<and> disk s' = disk s
              \<and> accepted_slugs s' = accepted_slugs s
              \<and> fetch_offsets (trace s') = fetch_offsets (trace s) @ replicate k offset))"
proof (intro conjI impI)
  assume "fetch_failure (feed (requests s) offset)"
  then show "\<exists>evs. fetch_iteration feed offset s
         = (True, offset, s\<lparr>requests := Suc (requests s),
                             trace := trace s @ Fetch offset # evs\<rparr>)
        \<and> (evs = [Error_fetch offset, Sleep 5] \<or> evs = [Sleep 2, Error_fetch offset, Sleep 5]
            \<or> evs = [Sleep 2, Error_parse offset, Sleep 5])"
    by (rule fetch_iteration_failure)
next
  assume all: "\<forall>n \<ge> requests s. fetch_failure (feed n offset)"
  show "fetch_loop feed offset s = None"
  proof (rule ccontr)
    assume "fetch_loop feed offset s \<noteq> None"
    then obtain r where "fetch_loop feed offset s = Some r" by blast
    then obtain k offset' where "fetch_steps feed k (True, offset, s) = (False, offset', r)"
      using steps_of_fetch_loop by blast
    with fetch_steps_failing [of s feed offset k, OF all] show False by auto
  qed
next
  assume all: "\<forall>n \<ge> requests s. fetch_failure (feed n offset)"
  show "\<forall>k. \<exists>s'. fetch_steps feed k (True, offset, s) = (True, offset, s')
              \<and> requests s' = requests s + k \<and> disk s' = disk s
              \<and> accepted_slugs s' = accepted_slugs s
              \<and> fetch_offsets (trace s') = fetch_offsets (trace s) @ replicate k offset"
    using fetch_steps_failing [of s feed offset, OF all] by blast
qed

lemmas feed_defs = failing_feed_def flaky_feed_def

theorem failed_fetch_is_retried_witness:
  "fetch_failure (flaky_feed (requests example_start) 0)
   \<and> fetch_iteration flaky_feed 0 example_start
       = (True, 0, example_start\<lparr>requests := Suc (requests example_start),
            trace := trace example_start @ [Fetch 0, Sleep 2, Error_parse 0, Sleep 5]\<rparr>)
   \<and> map_option (\<lambda>s. fetch_offsets (trace s)) (fetch_loop flaky_feed 0 example_start)
       = Some [0, 0, 20]
   \<and> fetch_failure (failing_feed 7 0)
   \<and> fetch_loop failing_feed 0 example_start = None
   \<and> fetch_offsets (trace (snd (snd (fetch_steps failing_feed 3 (True, 0, example_start)))))
       = [0, 0, 0]"
proof -
  have 1: "fetch_failure (flaky_feed (requests example_start) 0)"
    by (simp add: feed_defs example_defs)
  have 2: "\<forall>n \<ge> requests example_start. fetch_failure (failing_feed n 0)"
    by (simp add: feed_defs)
  have 3: "fetch_steps flaky_feed 3 (True, 0, example_start)
    = (False, 20, snd (snd (fetch_steps flaky_feed 3 (True, 0, example_start))))"
    by (simp add: model_defs example_defs feed_defs fetch_steps_numeral)
  have 4: "fetch_offsets (trace (snd (snd (fetch_steps flaky_feed 3 (True, 0, example_start)))))
    = [0, 0, 20]"
    by (simp add: model_defs example_defs feed_defs fetch_steps_numeral)
  have 5: "fetch_offsets (trace (snd (snd (fetch_steps failing_feed 3 (True, 0, example_start)))))
    = [0, 0, 0]"
    by (simp add: model_defs example_defs feed_defs fetch_steps_numeral)
  have 6: "fetch_iteration flaky_feed 0 example_start
       = (True, 0, example_start\<lparr>requests := Suc (requests example_start),
            trace := trace example_start @ [Fetch 0, Sleep 2, Error_parse 0, Sleep 5]\<rparr>)"
    by (simp add: model_defs example_defs feed_defs)
  from failed_fetch_is_retried [of failing_feed example_start 0] 2
  have "fetch_loop failing_feed 0 example_start = None" by blast
  with 1 4 5 6 fetch_loop_of_steps [OF 3] show ?thesis by (simp add: feed_defs)
qed

subsection \<open>Frames\<close>

lemma write_accepted_frame:
  "requests (write_accepted s submission sub slug) = requests s"
  "base_dir (write_accepted s submission sub slug) = base_dir s"
  "accepted_dir (write_accepted s submission sub slug) = accepted_dir s"
  "username (write_accepted s submission sub slug) = username s"
  by (rule write_accepted_cases
        [where s = s and submission = submission and sub = sub and slug = slug]; simp)+

lemma process_submission_frame:
  "requests (process_submission s submission) = requests s"
  "base_dir (process_submission s submission) = base_dir s"
  "accepted_dir (process_submission s submission) = accepted_dir s"
  "username (process_submission s submission) = username s"
  by (rule process_submission_cases [where s = s and submission = submission];
      simp add: write_accepted_frame)+

lemma process_batch_frame:
  "requests (process_batch s submissions) = requests s"
  "base_dir (process_batch s submissions) = base_dir s"
  "accepted_dir (process_batch s submissions) = accepted_dir s"
  "username (process_batch s submissions) = username s"
  unfolding process_batch_def
  by (induction submissions arbitrary: s) (simp_all add: process_submission_frame)

lemma fetch_offsets_append: "fetch_offsets (xs @ ys) = fetch_offsets xs @ fetch_offsets ys"
  by (induction xs rule: fetch_offsets.induct) simp_all

lemma fetch_offsets_process_submission:
  "fetch_offsets (trace (process_submission s submission)) = fetch_offsets (trace s)"
  using process_submission_effect [of s submission] by (auto simp: fetch_offsets_append)

lemma fetch_offsets_process_batch:
  "fetch_offsets (trace (process_batch s submissions)) = fetch_offsets (trace s)"
  unfolding process_batch_def
  by (induction submissions arbitrary: s) (simp_all add: fetch_offsets_process_submission)

subsection \<open>A feed that ends\<close>

lemma fetch_iteration_empty:
  assumes "feed (requests s) offset = Body None \<or> feed (requests s) offset = Body (Some [])"
  shows "fetch_iteration feed offset s
    = (False, offset,
       s\<lparr>requests := Suc (requests s),
         trace := trace s @ [Fetch offset, Sleep 2, Info_no_more]\<rparr>)"
  using assms by (auto simp: fetch_iteration_def Let_def emit_def)

lemma fetch_iteration_batch:
  assumes "feed (requests s) offset = Body (Some l)" and "l \<noteq> []"
  shows "\<exists>s'. fetch_iteration feed offset s = (True, offset + BATCH_SIZE, s')
    \<and> requests s' = Suc (requests s)
    \<and> fetch_offsets (trace s') = fetch_offsets (trace s) @ [offset]"
  using assms
  by (simp add: fetch_iteration_def Let_def process_batch_frame fetch_offsets_process_batch
        fetch_offsets_append)

lemma fetch_steps_to_the_end:
  assumes "feed_ends_at feed K" and "offset + j * BATCH_SIZE = K"
  shows "\<exists>s'. fetch_steps feed (Suc j) (True, offset, s) = (False, K, s')
    \<and> (\<forall>i \<le> j. fst (fetch_steps feed i (True, offset, s)))
    \<and> fetch_offsets (trace s')
        = fetch_offsets (trace s) @ map (\<lambda>i. offset + i * BATCH_SIZE) [0..<Suc j]
    \<and> last (trace s') = Info_no_more"
  using assms(2)
proof (induction j arbitrary: offset s)
  case 0
  then have "offset = K" by simp
  with assms(1) have "feed (requests s) offset = Body None
    \<or> feed (requests s) offset = Body (Some [])"
    by (simp add: feed_ends_at_def)
  from fetch_iteration_empty [of feed s offset, OF this] \<open>offset = K\<close> show ?case
    by (simp add: fetch_offsets_append)
next
  case (Suc j)
  from assms(1) have dvd: "BATCH_SIZE dvd K" by (simp add: feed_ends_at_def)
  from Suc.prems have lt: "offset < K" by (simp add: BATCH_SIZE_def)
  from Suc.prems dvd have "BATCH_SIZE dvd offset + Suc j * BATCH_SIZE" by simp
  then have "BATCH_SIZE dvd offset" by (simp add: dvd_add_left_iff)
  with assms(1) lt obtain l where l: "feed (requests s) offset = Body (Some l)" "l \<noteq> []"
    unfolding feed_ends_at_def by blast
  from fetch_iteration_batch [of feed s offset l, OF l] obtain s1 where
    it: "fetch_iteration feed offset s = (True, offset + BATCH_SIZE, s1)"
    and s1: "fetch_offsets (trace s1) = fetch_offsets (trace s) @ [offset]"
    by blast
  from Suc.prems have "offset + BATCH_SIZE + j * BATCH_SIZE = K" by simp
  from Suc.IH [OF this, of s1] obtain s' where
    fin: "fetch_steps feed (Suc j) (True, offset + BATCH_SIZE, s1) = (False, K, s')"
    and run: "\<forall>i \<le> j. fst (fetch_steps feed i (True, offset + BATCH_SIZE, s1))"
    and offs: "fetch_offsets (trace s')
        = fetch_offsets (trace s1) @ map (\<lambda>i. offset + BATCH_SIZE + i * BATCH_SIZE) [0..<Suc j]"
    and lst: "last (trace s') = Info_no_more"
    by blast
  from it fin have 1: "fetch_steps feed (Suc (Suc j)) (True, offset, s) = (False, K, s')"
    by simp
  have 2: "fst (fetch_steps feed i (True, offset, s))" if "i \<le> Suc j" for i
  proof (cases i)
    case 0
    then show ?thesis by simp
  next
    case (Suc i')
    with that run it show ?thesis by simp
  qed
  have "map (\<lambda>i. offset + i * BATCH_SIZE) [0..<Suc (Suc j)]
    = offset # map (\<lambda>i. offset + BATCH_SIZE + i * BATCH_SIZE) [0..<Suc j]"
    by (simp add: upt_rec [of 0] map_Suc_upt [symmetric] del: upt_Suc)
  with offs s1 have 3: "fetch_offsets (trace s')
        = fetch_offsets (trace s) @ map (\<lambda>i. offset + i * BATCH_SIZE) [0..<Suc (Suc j)]"
    by simp
  from 1 2 3 lst show ?case by blast
qed

text \<open>
  C3, as amended. On a feed whose batches are non-empty at the offsets \<open>0\<close>, \<open>BATCH_SIZE\<close>,
  ... below \<open>K\<close> and empty (or absent) at offset \<open>K\<close>, the fetch loop returns. It starts at
  offset \<open>0\<close>, moves on by \<open>BATCH_SIZE\<close> after each non-empty batch, and stops in the pass
  that fetches offset \<open>K\<close> and sees the empty batch, not before. It makes
  \<open>K div BATCH_SIZE + 1\<close> requests: one for each non-empty batch and the one that sees the
  empty batch.
\<close>

theorem fetch_loop_ends_at_empty_batch:
  assumes "feed_ends_at feed K"
  shows "\<exists>s'. fetch_submissions feed s = Some s'
    \<and> fetch_steps feed (K div BATCH_SIZE + 1) (True, 0, emit Info_starting s) = (False, K, s')
    \<and> (\<forall>i \<le> K div BATCH_SIZE. fst (fetch_steps feed i (True, 0, emit Info_starting s)))
    \<and> fetch_offsets (trace s')
        = fetch_offsets (trace s) @ map (\<lambda>i. i * BATCH_SIZE) [0..<K div BATCH_SIZE + 1]
    \<and> length (fetch_offsets (trace s')) = length (fetch_offsets (trace s)) + K div BATCH_SIZE + 1
    \<and> last (trace s') = Info_no_more"
proof -
  from assms have "BATCH_SIZE dvd K" by (simp add: feed_ends_at_def)
  then have K: "0 + K div BATCH_SIZE * BATCH_SIZE = K" by simp
  from fetch_steps_to_the_end [OF assms K, of "emit Info_starting s"]
  obtain s' where
    1: "fetch_steps feed (Suc (K div BATCH_SIZE)) (True, 0, emit Info_starting s) = (False, K, s')"
    and 2: "\<forall>i \<le> K div BATCH_SIZE. fst (fetch_steps feed i (True, 0, emit Info_starting s))"
    and 3: "fetch_offsets (trace s') = fetch_offsets (trace (emit Info_starting s))
               @ map (\<lambda>i. 0 + i * BATCH_SIZE) [0..<Suc (K div BATCH_SIZE)]"
    and 4: "last (trace s') = Info_no_more"
    by blast
  from 1 have "fetch_submissions feed s = Some s'"
    unfolding fetch_submissions_def by (rule fetch_loop_of_steps)
  moreover from 3 have 5: "fetch_offsets (trace s')
        = fetch_offsets (trace s) @ map (\<lambda>i. i * BATCH_SIZE) [0..<K div BATCH_SIZE + 1]"
    by (simp add: fetch_offsets_append)
  moreover from 5 have "length (fetch_offsets (trace s'))
    = length (fetch_offsets (trace s)) + K div BATCH_SIZE + 1" by simp
  ultimately show ?thesis using 1 2 4 by simp
qed

lemma example_feed_ends: "feed_ends_at example_feed 20"
proof -
  have "offset = 0" if "offset < 20" "20 dvd offset" for offset :: nat
    using that by (auto elim!: dvdE)
  then show ?thesis
    by (auto simp: feed_ends_at_def BATCH_SIZE_def example_feed_def two_accepted_def)
qed

theorem fetch_loop_ends_at_empty_batch_witness:
  "feed_ends_at example_feed 20
   \<and> map_option (\<lambda>s. fetch_offsets (trace s)) (fetch_submissions example_feed example_start)
       = Some [0, 20]
   \<and> map_option (\<lambda>s. last (trace s)) (fetch_submissions example_feed example_start)
       = Some Info_no_more"
proof -
  from fetch_loop_ends_at_empty_batch [OF example_feed_ends, of example_start]
  obtain s' where "fetch_submissions example_feed example_start = Some s'"
    "fetch_offsets (trace s')
        = fetch_offsets (trace example_start) @ map (\<lambda>i. i * BATCH_SIZE) [0..<20 div BATCH_SIZE + 1]"
    "last (trace s') = Info_no_more"
    by blast
  then show ?thesis
    by (simp add: example_feed_ends example_start_def BATCH_SIZE_def upt_rec)
qed

text \<open>
  The count of C3 as stated, \<open>\<lceil>K / BATCH_SIZE\<rceil>\<close> requests, leaves out the request that sees
  the empty batch: on the feed of one batch of two records (\<open>K = 20\<close>) the loop makes two
  requests, at the offsets \<open>0\<close> and \<open>20\<close>, and \<open>\<lceil>20 / 20\<rceil> = 1\<close>.
\<close>

theorem fetch_count_counterexample:
  "feed_ends_at example_feed 20
   \<and> map_option (\<lambda>s. length (fetch_offsets (trace s)))
        (fetch_submissions example_feed example_start) = Some 2
   \<and> (20 + BATCH_SIZE - 1) div BATCH_SIZE = 1
   \<and> map_option (\<lambda>s. length (fetch_offsets (trace s)))
        (fetch_submissions example_feed example_start)
       \<noteq> Some ((20 + BATCH_SIZE - 1) div BATCH_SIZE)"
proof -
  have "fetch_steps example_feed 2 (True, 0, emit Info_starting example_start)
    = (False, 20, snd (snd (fetch_steps example_feed 2 (True, 0, emit Info_starting example_start))))"
    by (simp add: model_defs example_defs fetch_steps_numeral)
  then have "fetch_submissions example_feed example_start
    = Some (snd (snd (fetch_steps example_feed 2 (True, 0, emit Info_starting example_start))))"
    unfolding fetch_submissions_def by (rule fetch_loop_of_steps)
  moreover have "length (fetch_offsets (trace
     (snd (snd (fetch_steps example_feed 2 (True, 0, emit Info_starting example_start)))))) = 2"
    by (simp add: model_defs example_defs fetch_steps_numeral)
  ultimately show ?thesis by (simp add: example_feed_ends BATCH_SIZE_def)
qed

subsection \<open>How the disk changes\<close>

lemma evolves_refl [simp]: "evolves fs fs"
  by (simp add: evolves_def)





















subsection \<open>Records that cannot be written again\<close>









subsection \<open>A second run, pass by pass\<close>







subsection \<open>Two runs\<close>







subsection \<open>Which files the handler touches\<close>





subsection \<open>The invariant of the accepted files\<close>

lemma accepted_files_inv_requests [simp]:
  "accepted_files_inv before (s\<lparr>requests := n\<rparr>) = accepted_files_inv before s"
  by (simp add: accepted_files_inv_def)














lemmas pool_defs = run_pool_def pool_step_def may_run_def MAX_WORKERS_def

text \<open>A job that runs alone does what the handler does, in at most five steps.\<close>

lemma worker_run_alone:
  "worker_run 5 (s, Queued submission) = (process_submission s submission, Finished)"
  by (rule process_submission_cases [where s = s and submission = submission])
     (auto simp: eval_nat_numeral first_accepted_def)

text \<open>
  C2 fails on the code: the test of line 297 and the \<open>add\<close> of line 298 are two steps with
  nothing to keep another thread out. On the batch of two accepted submissions of
  \<open>two-sum\<close>, with both jobs past the test before either adds, both export: two accepted
  files are written, and the set holds the problem once. Run one after the other, the
  same jobs export once.
\<close>

theorem unserialized_check_and_add:
  "(case run_pool [0, 0, 0, 1, 1, 1, 0, 0, 1, 1] example_start two_accepted of
      (s, jobs) \<Rightarrow>
        jobs = [Finished, Finished]
        \<and> outcomes (trace s)
            = [Detail_and_accepted [lit ''Accepted'', lit ''two-sum.py''],
               Detail_and_accepted [lit ''Accepted'', lit ''two-sum.cpp'']]
        \<and> length (filter (export_of (lit ''two-sum'')) (trace s)) = 2
        \<and> accepted_slugs s = {lit ''two-sum''})
   \<and> (case run_pool [0, 0, 0, 0, 0, 1, 1, 1, 1, 1] example_start two_accepted of
      (s, jobs) \<Rightarrow>
        jobs = [Finished, Finished]
        \<and> outcomes (trace s)
            = [Detail_and_accepted [lit ''Accepted'', lit ''two-sum.py''], Detail_only]
        \<and> length (filter (export_of (lit ''two-sum'')) (trace s)) = 1
        \<and> accepted_slugs s = {lit ''two-sum''})"
  by (simp add: pool_defs model_defs example_defs)

text \<open>
  Under the schedule that runs the jobs one after the other, each to its end, the pool
  does what \<open>process_batch\<close> does.
\<close>

lemma pool_step_front:
  "pool_step (s, replicate m Finished @ j # map Queued l) m
     = (case worker_step s j of
          (s', j') \<Rightarrow> (s', replicate m Finished @ j' # map Queued l))"
proof -
  let ?jobs = "replicate m Finished @ j # map Queued l"
  have nth: "?jobs ! m = j" by (simp add: nth_append)
  have upd: "?jobs[m := j'] = replicate m Finished @ j' # map Queued l" for j'
    by (simp add: list_update_append)
  have front: "list_all (\<lambda>j. \<not> is_queued j) (take m ?jobs)" by (simp add: list_all_iff)
  have count: "filter in_flight ?jobs = (if in_flight j then [j] else [])"
    by (simp add: filter_empty_conv)
  show ?thesis
  proof (cases j)
    case Finished
    with nth upd show ?thesis by (simp add: pool_step_def may_run_def)
  next
    case (Queued x)
    with nth upd front count show ?thesis
      by (simp add: pool_step_def may_run_def MAX_WORKERS_def del: worker_step.simps)
  qed (use nth upd in \<open>simp_all add: pool_step_def may_run_def del: worker_step.simps\<close>)
qed

lemma pool_steps_front:
  "foldl pool_step (s, replicate m Finished @ j # map Queued l) (replicate n m)
     = (case worker_run n (s, j) of
          (s', j') \<Rightarrow> (s', replicate m Finished @ j' # map Queued l))"
proof (induction n arbitrary: s j)
  case 0
  show ?case by simp
next
  case (Suc n)
  obtain s1 j1 where w: "worker_step s j = (s1, j1)" by (cases "worker_step s j") auto
  with Suc [of s1 j1] show ?case by (simp add: pool_step_front)
qed

lemma pool_serial_from:
  "foldl pool_step (s, replicate m Finished @ map Queued l)
       (concat (map (replicate 5) [m..<m + length l]))
     = (process_batch s l, replicate (m + length l) Finished)"
proof (induction l arbitrary: s m)
  case Nil
  show ?case by (simp add: process_batch_def)
next
  case (Cons x l)
  have sched: "[m..<m + length (x # l)] = m # [Suc m..<Suc m + length l]"
    by (simp add: upt_conv_Cons del: upt_Suc)
  have jobs: "replicate m Finished @ Finished # map Queued l
    = replicate (Suc m) Finished @ map Queued l"
    by (simp add: replicate_app_Cons_same)
  have first: "foldl pool_step (s, replicate m Finished @ Queued x # map Queued l) (replicate 5 m)
    = (process_submission s x, replicate (Suc m) Finished @ map Queued l)"
    unfolding pool_steps_front worker_run_alone jobs [symmetric] by simp
  have "foldl pool_step (s, replicate m Finished @ map Queued (x # l))
       (concat (map (replicate 5) [m..<m + length (x # l)]))
    = foldl pool_step
        (foldl pool_step (s, replicate m Finished @ Queued x # map Queued l) (replicate 5 m))
        (concat (map (replicate 5) [Suc m..<Suc m + length l]))"
    unfolding sched by (simp del: replicate_Suc upt_Suc replicate.simps)
  also have "\<dots> = (process_batch (process_submission s x) l,
      replicate (Suc m + length l) Finished)"
    unfolding first by (rule Cons)
  finally show ?case by (simp add: process_batch_def)
qed

lemma pool_serial:
  "run_pool (concat (map (replicate 5) [0..<length l])) s l
     = (process_batch s l, replicate (length l) Finished)"
  using pool_serial_from [of s 0 l] by (simp add: run_pool_def)

end
